theory Spec2Isabelle
  imports Complex_Main "HOL-Library.Word"
begin

section \<open>The music plugin of Vleer (src/plugins/music.ts)\<close>

text \<open>
  The plugin object \<open>music\<close> is embedded operation by operation. Its collaborators are
  the Tauri filesystem plugin (\<open>exists\<close>, \<open>remove\<close>, \<open>readFile\<close>, \<open>writeFile\<close>, all relative
  to the audio directory), the SQL plugin (\<open>db.execute\<close>) and the browser's audio objects.
  Each collaborator is a component of an explicit state; an operation takes the state
  and returns its outcome together with the state it leaves behind, so that what a
  failed call has already done stays visible. Calls to \<open>console.error\<close> are left out.
\<close>

subsection \<open>Values a caller can hand in\<close>

text \<open>
  \<open>updatePlaylistCover\<close> declares \<open>coverPath: any\<close> and inspects it at run time, so the
  argument is a JavaScript value. An object is its list of properties (the first
  binding of a name is the property's value). Functions and symbols, which the guard
  of line 59 turns away by their \<open>typeof\<close>, are left out.
\<close>

datatype jsval =
    JUndefined
  | JNull
  | JBool bool
  | JNumber int
  | JNaN
  | JString string
  | JObject "(string \<times> jsval) list"

text \<open>\<open>!v\<close> is true exactly for the falsy values.\<close>

fun truthy :: "jsval \<Rightarrow> bool" where
  "truthy JUndefined = False"
| "truthy JNull = False"
| "truthy (JBool b) = b"
| "truthy (JNumber n) = (n \<noteq> 0)"
| "truthy JNaN = False"
| "truthy (JString s) = (s \<noteq> [])"
| "truthy (JObject fs) = True"

fun typeof :: "jsval \<Rightarrow> string" where
  "typeof JUndefined = ''undefined''"
| "typeof JNull = ''object''"
| "typeof (JBool b) = ''boolean''"
| "typeof (JNumber n) = ''number''"
| "typeof JNaN = ''number''"
| "typeof (JString s) = ''string''"
| "typeof (JObject fs) = ''object''"

text \<open>
  Property access \<open>v.name\<close>. It is only evaluated after \<open>v\<close> passed the truthiness test,
  where a primitive yields \<open>undefined\<close> for a property it does not have.
\<close>

fun get_prop :: "jsval \<Rightarrow> string \<Rightarrow> jsval" where
  "get_prop (JObject fs) name = (case map_of fs name of None \<Rightarrow> JUndefined | Some v \<Rightarrow> v)"
| "get_prop v name = JUndefined"

text \<open>
  The guard of line 59:
  \<open>!coverPath || typeof coverPath !== 'object' || typeof coverPath.path !== 'string'\<close>.
\<close>

definition invalid_coverPath :: "jsval \<Rightarrow> bool" where
  "invalid_coverPath coverPath =
     (if \<not> truthy coverPath then True
      else if typeof coverPath \<noteq> ''object'' then True
      else typeof (get_prop coverPath ''path'') \<noteq> ''string'')"

text \<open>
  A well-formed cover descriptor in the words of the specification: an object with a
  string-valued \<open>path\<close> field.
\<close>

definition well_formed_descriptor :: "jsval \<Rightarrow> bool" where
  "well_formed_descriptor v =
     (case v of
        JObject fs \<Rightarrow> (case map_of fs ''path'' of Some (JString s) \<Rightarrow> True | _ \<Rightarrow> False)
      | _ \<Rightarrow> False)"

subsection \<open>Strings and paths\<close>

text \<open>\<open>s.split(c)\<close> for a one-character separator: never empty, \<open>n\<close> separators give \<open>n + 1\<close> parts.\<close>

fun split :: "char \<Rightarrow> string \<Rightarrow> string list" where
  "split c [] = [[]]"
| "split c (x # xs) =
     (if x = c then [] # split c xs
      else (case split c xs of
              [] \<Rightarrow> [[x]]
            | part # parts \<Rightarrow> (x # part) # parts))"

text \<open>\<open>parts.pop()\<close> reads the last element; the array \<open>split\<close> returns has one.\<close>

definition pop :: "string list \<Rightarrow> string" where
  "pop parts = last parts"

text \<open>The template \<open>`Vleer/Covers/${id}.${ext}`\<close>.\<close>

definition cover_path :: "string \<Rightarrow> string \<Rightarrow> string" where
  "cover_path ident ext = ''Vleer/Covers/'' @ ident @ ''.'' @ ext"

subsection \<open>The filesystem and the database\<close>

type_synonym bytes = "8 word list"

text \<open>
  The audio directory is a map from paths to file contents. Whether the platform lets
  the application change a path, and whether the database accepts a statement, is
  decided outside the plugin: \<open>write_protected\<close> and \<open>db_available\<close> stand for those
  decisions. The table \<open>playlists\<close> maps the id of each row to its \<open>cover\<close> column.
\<close>

record world =
  files :: "string \<rightharpoonup> bytes"
  write_protected :: "string \<Rightarrow> bool"
  playlists :: "string \<rightharpoonup> string option"
  db_available :: bool

datatype error =
    TypeError string
  | Error string
  | FileNotFound string
  | PermissionDenied string
  | DatabaseError
  | NotFoundError string

definition fs_exists :: "world \<Rightarrow> string \<Rightarrow> bool" where
  "fs_exists w p = (files w p \<noteq> None)"

definition fs_remove :: "world \<Rightarrow> string \<Rightarrow> error + world" where
  "fs_remove w p =
     (if files w p = None then Inl (FileNotFound p)
      else if write_protected w p then Inl (PermissionDenied p)
      else Inr (w\<lparr>files := (files w)(p := None)\<rparr>))"

definition readFile :: "world \<Rightarrow> string \<Rightarrow> error + bytes" where
  "readFile w p = (case files w p of None \<Rightarrow> Inl (FileNotFound p) | Some contents \<Rightarrow> Inr contents)"

definition writeFile :: "world \<Rightarrow> string \<Rightarrow> bytes \<Rightarrow> error + world" where
  "writeFile w p contents =
     (if write_protected w p then Inl (PermissionDenied p)
      else Inr (w\<lparr>files := (files w)(p \<mapsto> contents)\<rparr>))"

text \<open>
  \<open>UPDATE playlists SET cover = ? WHERE id = ?\<close>: a point update that changes the row
  with the given id and no other; without such a row it changes nothing.
\<close>

definition db_update_cover :: "world \<Rightarrow> string \<Rightarrow> string \<Rightarrow> error + world" where
  "db_update_cover w cover ident =
     (if \<not> db_available w then Inl DatabaseError
      else (case playlists w ident of
              None \<Rightarrow> Inr w
            | Some old \<Rightarrow> Inr (w\<lparr>playlists := (playlists w)(ident \<mapsto> Some cover)\<rparr>)))"

subsection \<open>updatePlaylistCover (lines 58-84)\<close>

definition existingExtensions :: "string list" where
  "existingExtensions = [''png'', ''jpg'', ''jpeg'', ''gif'']"

text \<open>
  The loop of lines 68-74. It is outside the \<open>try\<close> block: a failing \<open>remove\<close> ends the
  call with that error, the files removed so far staying removed.
\<close>

fun remove_old_covers :: "world \<Rightarrow> string \<Rightarrow> string list \<Rightarrow> error option \<times> world" where
  "remove_old_covers w playlistId [] = (None, w)"
| "remove_old_covers w playlistId (ext # exts) =
     (let oldCoverPath = cover_path playlistId ext in
      if fs_exists w oldCoverPath then
        (case fs_remove w oldCoverPath of
           Inl e \<Rightarrow> (Some e, w)
         | Inr w' \<Rightarrow> remove_old_covers w' playlistId exts)
      else remove_old_covers w playlistId exts)"

definition update_failed :: error where
  "update_failed = Error ''Failed to update playlist cover due to path or permission issues.''"

definition invalid_argument :: error where
  "invalid_argument = TypeError ''coverPath must be an object with a path string''"

text \<open>
  The \<open>try\<close> block of lines 76-83: any failure of the read, the write or the database
  statement is replaced by the one error of line 82.
\<close>

definition write_and_persist :: "world \<Rightarrow> string \<Rightarrow> string \<Rightarrow> string \<Rightarrow> error option \<times> world" where
  "write_and_persist w source newCoverPath playlistId =
     (case readFile w source of
        Inl e \<Rightarrow> (Some update_failed, w)
      | Inr contents \<Rightarrow>
          (case writeFile w newCoverPath contents of
             Inl e \<Rightarrow> (Some update_failed, w)
           | Inr w' \<Rightarrow>
               (case db_update_cover w' newCoverPath playlistId of
                  Inl e \<Rightarrow> (Some update_failed, w')
                | Inr w'' \<Rightarrow> (None, w''))))"

definition updatePlaylistCover :: "world \<Rightarrow> string \<Rightarrow> jsval \<Rightarrow> error option \<times> world" where
  "updatePlaylistCover w playlistId coverPath =
     (if invalid_coverPath coverPath then (Some invalid_argument, w)
      else (case get_prop coverPath ''path'' of
              JString source \<Rightarrow>
                (let extension = pop (split CHR ''.'' source);
                     newCoverName = playlistId @ ''.'' @ extension;
                     newCoverPath = ''Vleer/Covers/'' @ newCoverName
                 in case remove_old_covers w playlistId existingExtensions of
                      (Some e, w') \<Rightarrow> (Some e, w')
                    | (None, w') \<Rightarrow> write_and_persist w' source newCoverPath playlistId)
            | _ \<Rightarrow> (Some invalid_argument, w)))"

subsection \<open>Cover lookup (lines 85-106 and 214-229)\<close>

text \<open>
  \<open>URL.createObjectURL(new Blob([contents]))\<close> yields a URL that stands for the bytes
  handed in; it is represented by those bytes. The other result is a fixed string.
\<close>

datatype cover_url = ObjectURL bytes | StaticURL string

fun getCoverURLFromID_loop :: "world \<Rightarrow> string \<Rightarrow> string list \<Rightarrow> error + cover_url" where
  "getCoverURLFromID_loop w playlistId [] = Inr (StaticURL ''/cover.png'')"
| "getCoverURLFromID_loop w playlistId (ext # exts) =
     (if fs_exists w (cover_path playlistId ext) then
        (case readFile w (cover_path playlistId ext) of
           Inl e \<Rightarrow> Inl e
         | Inr contents \<Rightarrow> Inr (ObjectURL contents))
      else getCoverURLFromID_loop w playlistId exts)"

definition getCoverURLFromID :: "world \<Rightarrow> string \<Rightarrow> error + cover_url" where
  "getCoverURLFromID w playlistId =
     getCoverURLFromID_loop w playlistId [''png'', ''jpg'', ''jpeg'', ''gif'']"

fun searchCoverByPlaylistId_loop :: "world \<Rightarrow> string \<Rightarrow> string list \<Rightarrow> error + cover_url" where
  "searchCoverByPlaylistId_loop w playlistId [] = Inr (StaticURL ''/cover.png'')"
| "searchCoverByPlaylistId_loop w playlistId (ext # exts) =
     (if fs_exists w (cover_path playlistId ext) then
        (case readFile w (cover_path playlistId ext) of
           Inl e \<Rightarrow> Inl e
         | Inr contents \<Rightarrow> Inr (ObjectURL contents))
      else searchCoverByPlaylistId_loop w playlistId exts)"

definition searchCoverByPlaylistId :: "world \<Rightarrow> string \<Rightarrow> error + cover_url" where
  "searchCoverByPlaylistId w playlistId =
     searchCoverByPlaylistId_loop w playlistId [''png'', ''jpg'', ''jpeg'', ''gif'']"

definition getCoverFromID :: "world \<Rightarrow> string \<Rightarrow> error + cover_url" where
  "getCoverFromID w songId =
     (case readFile w (''Vleer/Covers/'' @ songId @ ''.png'') of
        Inl e \<Rightarrow> Inl e
      | Inr contents \<Rightarrow> Inr (ObjectURL contents))"

text \<open>
  A run of calls for one playlist, each started when the one before has completed; the
  run ends at the first call that fails.
\<close>

fun updatePlaylistCover_seq :: "world \<Rightarrow> string \<Rightarrow> jsval list \<Rightarrow> error option \<times> world" where
  "updatePlaylistCover_seq w playlistId [] = (None, w)"
| "updatePlaylistCover_seq w playlistId (c # cs) =
     (case updatePlaylistCover w playlistId c of
        (Some e, w') \<Rightarrow> (Some e, w')
      | (None, w') \<Rightarrow> updatePlaylistCover_seq w' playlistId cs)"

text \<open>
  What the statements about covers speak of: the source path a descriptor carries, the
  extension \<open>updatePlaylistCover\<close> derives from it, the extensions for which a cover
  of an id is on disk (any extension, as in \<open><id>.*\<close>), and those among the four
  extensions the plugin knows.
\<close>

definition descriptor_path :: "jsval \<Rightarrow> string" where
  "descriptor_path c = (case get_prop c ''path'' of JString s \<Rightarrow> s | _ \<Rightarrow> [])"

definition new_extension :: "jsval \<Rightarrow> string" where
  "new_extension c = pop (split CHR ''.'' (descriptor_path c))"

definition covers_on_disk :: "world \<Rightarrow> string \<Rightarrow> string set" where
  "covers_on_disk w ident = {ext. files w (cover_path ident ext) \<noteq> None}"

definition known_covers :: "world \<Rightarrow> string \<Rightarrow> string list" where
  "known_covers w ident = filter (\<lambda>ext. fs_exists w (cover_path ident ext)) existingExtensions"

subsection \<open>Volume (lines 131-151)\<close>



subsection \<open>The audio graph (lines 159-183)\<close>

datatype context_state = Suspended | Running | Closed

datatype audio_node = MediaElementSource | Analyser | Destination | BiquadFilter nat

record analyser_node =
  fftSize :: nat

record eq_filter =
  band :: nat
  gain :: real

text \<open>
  \<open>connections\<close> lists the \<open>connect\<close> calls made so far, oldest first; the graph is the
  set of these pairs.
\<close>

record player =
  audioContext :: "context_state option"
  sourceNode :: "audio_node option"
  analyser :: "analyser_node option"
  eqFilters :: "eq_filter list"
  connections :: "(audio_node \<times> audio_node) list"

text \<open>
  \<open>musicStore.applyEqSettings\<close> is called with the stored settings at line 161 and with
  the array of filter nodes at line 176; its argument is one or the other.
\<close>

type_synonym eq_settings = "(nat \<times> real) list"

datatype eq_argument = EqSettings eq_settings | EqFilters "eq_filter list"

text \<open>
  The store (\<open>~/stores/music\<close>) and the browser are not part of the plugin. What the
  graph construction takes from them: the state a new \<open>AudioContext\<close> starts in, the
  filters \<open>createEqFilters\<close> returns, the connections \<open>connectEqFilters\<close> makes, and
  the filters as \<open>applyEqSettings\<close> leaves them.
\<close>

record collaborators =
  newContextState :: context_state
  createEqFilters :: "player \<Rightarrow> eq_filter list"
  connectEqFilters :: "player \<Rightarrow> (audio_node \<times> audio_node) list"
  applyEqSettings :: "eq_argument \<Rightarrow> player \<Rightarrow> eq_filter list"

definition resume :: "player \<Rightarrow> player" where
  "resume p = p\<lparr>audioContext := Some Running\<rparr>"

definition ensureAudioContextAndFilters :: "collaborators \<Rightarrow> player \<Rightarrow> player" where
  "ensureAudioContextAndFilters env p =
     (case audioContext p of
        None \<Rightarrow>
          (let p1 = p\<lparr>audioContext := Some (newContextState env)\<rparr>;
               p2 = p1\<lparr>sourceNode := Some MediaElementSource\<rparr>;
               p3 = p2\<lparr>analyser := Some \<lparr>fftSize = 2048\<rparr>\<rparr>;
               p4 = p3\<lparr>connections := connections p3 @ [(MediaElementSource, Analyser)]\<rparr>;
               p5 = p4\<lparr>connections := connections p4 @ [(Analyser, Destination)]\<rparr>;
               p6 = p5\<lparr>analyser := Some \<lparr>fftSize = 256\<rparr>\<rparr>;
               p7 = p6\<lparr>eqFilters := createEqFilters env p6\<rparr>;
               p8 = p7\<lparr>connections := connections p7 @ connectEqFilters env p7\<rparr>;
               p9 = p8\<lparr>eqFilters := applyEqSettings env (EqFilters (eqFilters p8)) p8\<rparr>
           in if audioContext p9 = Some Suspended then resume p9 else p9)
      | Some state \<Rightarrow> if state = Suspended then resume p else p)"

text \<open>The plugin's own \<open>applyEqSettings\<close> (lines 159-162) hands over the stored settings.\<close>

definition applyEqSettings_plugin :: "collaborators \<Rightarrow> eq_settings \<Rightarrow> player \<Rightarrow> player" where
  "applyEqSettings_plugin env stored p = p\<lparr>eqFilters := applyEqSettings env (EqSettings stored) p\<rparr>"

text \<open>
  Modelled from the spec: \<open>createEqFilters\<close> of the store (\<open>~/stores/music\<close>) is missing
  from the sources. Section 3: "one entry per supported frequency band (fixed
  cardinality, e.g. 10 bands at standard center frequencies)". A new \<open>BiquadFilterNode\<close>
  has gain 0.
\<close>

definition createEqFilters_spec :: "player \<Rightarrow> eq_filter list" where
  "createEqFilters_spec p = map (\<lambda>i. \<lparr>band = i, gain = 0\<rparr>) [0..<10]"

text \<open>
  Modelled from the spec: the order in which the nodes are chained is fixed by section
  4.3 only: "source, each filter in band order, analyser, output".
\<close>

definition chain :: "eq_filter list \<Rightarrow> (audio_node \<times> audio_node) list" where
  "chain fs =
     (let nodes = MediaElementSource # map (\<lambda>f. BiquadFilter (band f)) fs @ [Analyser, Destination]
      in zip nodes (tl nodes))"

text \<open>
  Modelled from the spec: \<open>connectEqFilters\<close> of the store is missing from the sources.
  Section 4.3: it "connects nodes in the fixed order".
\<close>

definition connectEqFilters_spec :: "player \<Rightarrow> (audio_node \<times> audio_node) list" where
  "connectEqFilters_spec p = chain (eqFilters p)"

text \<open>
  Modelled from the spec: \<open>applyEqSettings\<close> of the store is missing from the sources.
  Section 4.3: it "writes every band's gain to the corresponding filter". A filter node
  holds no entry of the settings, so from an array of filter nodes there is no gain
  to write.
\<close>

fun applyEqSettings_spec :: "eq_argument \<Rightarrow> player \<Rightarrow> eq_filter list" where
  "applyEqSettings_spec (EqSettings stored) p =
     map (\<lambda>f. case map_of stored (band f) of None \<Rightarrow> f | Some g \<Rightarrow> f\<lparr>gain := g\<rparr>) (eqFilters p)"
| "applyEqSettings_spec (EqFilters nodes) p = eqFilters p"

text \<open>The collaborators as the specification describes them.\<close>

definition spec_collaborators :: "context_state \<Rightarrow> collaborators" where
  "spec_collaborators fresh =
     \<lparr>newContextState = fresh, createEqFilters = createEqFilters_spec,
      connectEqFilters = connectEqFilters_spec, applyEqSettings = applyEqSettings_spec\<rparr>"

definition no_graph :: player where
  "no_graph = \<lparr>audioContext = None, sourceNode = None, analyser = None, eqFilters = [],
                connections = []\<rparr>"

subsection \<open>The end of a track (lines 187-189 and 241-243)\<close>










subsection \<open>Concrete states\<close>

definition stale_world :: world where
  "stale_world =
     \<lparr>files = [''Vleer/Covers/p.png'' \<mapsto> [1, 2, 3]], write_protected = (\<lambda>p. False),
      playlists = [''p'' \<mapsto> Some ''Vleer/Covers/p.png''], db_available = True\<rparr>"



definition source_files :: world where
  "source_files =
     \<lparr>files = [''a.webp'' \<mapsto> [1], ''b.bmp'' \<mapsto> [2], ''c.png'' \<mapsto> [3], ''d.jpg'' \<mapsto> [4]],
      write_protected = (\<lambda>p. False),
      playlists = [''p'' \<mapsto> None], db_available = True\<rparr>"

definition leftover_world :: world where
  "leftover_world =
     \<lparr>files = [''Vleer/Covers/p.gif'' \<mapsto> [5], ''Vleer/Covers/p.jpg'' \<mapsto> [6]],
      write_protected = (\<lambda>p. False), playlists = Map.empty, db_available = True\<rparr>"

definition suspended_graph :: player where
  "suspended_graph =
     \<lparr>audioContext = Some Suspended, sourceNode = Some MediaElementSource,
      analyser = Some \<lparr>fftSize = 256\<rparr>, eqFilters = [\<lparr>band = 0, gain = - 6\<rparr>],
      connections = [(MediaElementSource, Analyser), (Analyser, Destination)]\<rparr>"


section \<open>Properties of the cover operations\<close>

subsection \<open>Validation of the cover descriptor\<close>

lemma invalid_coverPath_iff: "invalid_coverPath c \<longleftrightarrow> \<not> well_formed_descriptor c"
  by (cases c)
    (auto simp: well_formed_descriptor_def invalid_coverPath_def
      split: option.splits jsval.splits if_splits)

text \<open>
  C9. For every input that is not a well-formed cover descriptor (not an object with a
  string-valued \<open>path\<close> field), \<open>updatePlaylistCover\<close> raises the \<open>TypeError\<close> of line 61
  before any \<open>exists\<close>, \<open>remove\<close>, \<open>readFile\<close>, \<open>writeFile\<close> or \<open>db.execute\<close>: the files and
  the playlists table are as they were.
\<close>

theorem updatePlaylistCover_rejects_malformed:
  assumes "\<not> well_formed_descriptor coverPath"
  shows "updatePlaylistCover w playlistId coverPath
           = (Some (TypeError ''coverPath must be an object with a path string''), w)"
proof -
  from assms have "invalid_coverPath coverPath"
    by (simp add: invalid_coverPath_iff)
  then show ?thesis
    by (simp add: updatePlaylistCover_def invalid_argument_def)
qed

theorem updatePlaylistCover_rejects_malformed_witness:
  "\<not> well_formed_descriptor (JObject [(''path'', JNumber 7)])
   \<and> updatePlaylistCover stale_world ''p'' (JObject [(''path'', JNumber 7)])
       = (Some (TypeError ''coverPath must be an object with a path string''), stale_world)"
proof -
  have h: "\<not> well_formed_descriptor (JObject [(''path'', JNumber 7)])"
    by (simp add: well_formed_descriptor_def)
  show ?thesis
    using h updatePlaylistCover_rejects_malformed [OF h, of stale_world "''p''"]
    by (rule conjI)
qed

subsection \<open>The two phases of an update\<close>

lemma cover_path_inj: "cover_path ident a = cover_path ident b \<longleftrightarrow> a = b"
  by (simp add: cover_path_def)

lemma fs_remove_Inr: "fs_remove w p = Inr w1 \<Longrightarrow> w1 = w\<lparr>files := (files w)(p := None)\<rparr>"
  by (auto simp: fs_remove_def split: if_splits)

text \<open>Whatever its outcome, the removal loop touches nothing but the paths it probes.\<close>

lemma remove_old_covers_frame:
  "remove_old_covers w ident exts = (r, w') \<Longrightarrow>
     playlists w' = playlists w \<and> write_protected w' = write_protected w
     \<and> db_available w' = db_available w
     \<and> (\<forall>p. p \<notin> cover_path ident ` set exts \<longrightarrow> files w' p = files w p)"
proof (induction exts arbitrary: w)
  case Nil
  then show ?case by simp
next
  case (Cons e es)
  show ?case
  proof (cases "fs_exists w (cover_path ident e)")
    case True
    show ?thesis
    proof (cases "fs_remove w (cover_path ident e)")
      case (Inl err)
      with True Cons.prems show ?thesis by (simp add: Let_def)
    next
      case (Inr w1)
      with True Cons.prems have rest: "remove_old_covers w1 ident es = (r, w')"
        by (simp add: Let_def)
      from Cons.IH [OF rest] fs_remove_Inr [OF Inr] show ?thesis by simp
    qed
  next
    case False
    with Cons.prems have rest: "remove_old_covers w ident es = (r, w')"
      by (simp add: Let_def)
    from Cons.IH [OF rest] show ?thesis by simp
  qed
qed

text \<open>A loop that ran to its end has left no file at any of the probed paths.\<close>

lemma remove_old_covers_done:
  "remove_old_covers w ident exts = (None, w') \<Longrightarrow> e \<in> set exts \<Longrightarrow>
     files w' (cover_path ident e) = None"
proof (induction exts arbitrary: w)
  case Nil
  then show ?case by simp
next
  case (Cons x xs)
  obtain w1 where rest: "remove_old_covers w1 ident xs = (None, w')"
    and gone: "files w1 (cover_path ident x) = None"
  proof (cases "fs_exists w (cover_path ident x)")
    case True
    with Cons.prems obtain w1 where r: "fs_remove w (cover_path ident x) = Inr w1"
      and rest: "remove_old_covers w1 ident xs = (None, w')"
      by (auto simp: Let_def split: sum.splits)
    from fs_remove_Inr [OF r] have "files w1 (cover_path ident x) = None" by simp
    with rest that show ?thesis by blast
  next
    case False
    with Cons.prems have "remove_old_covers w ident xs = (None, w')"
      by (simp add: Let_def)
    moreover from False have "files w (cover_path ident x) = None"
      by (simp add: fs_exists_def)
    ultimately show ?thesis using that by blast
  qed
  show ?case
  proof (cases "e \<in> set xs")
    case True
    with Cons.IH [OF rest] show ?thesis by simp
  next
    case False
    with Cons.prems have ex: "e = x" by simp
    from False ex have "cover_path ident x \<notin> cover_path ident ` set xs"
      by (auto simp: cover_path_inj)
    with remove_old_covers_frame [OF rest] gone ex show ?thesis by simp
  qed
qed


lemma write_and_persist_frame:
  "write_and_persist w1 source newp ident = (r, w') \<Longrightarrow>
     (\<forall>p. p \<noteq> newp \<longrightarrow> files w' p = files w1 p)"
  by (auto simp: write_and_persist_def writeFile_def db_update_cover_def
      split: sum.splits if_splits option.splits)


lemma write_and_persist_done:
  "write_and_persist w1 source newp ident = (None, w') \<Longrightarrow> files w' newp \<noteq> None"
  by (auto simp: write_and_persist_def writeFile_def db_update_cover_def readFile_def
      split: sum.splits if_splits option.splits)

lemma updatePlaylistCover_phases:
  assumes "\<not> invalid_coverPath c"
  shows "updatePlaylistCover w ident c =
     (case remove_old_covers w ident existingExtensions of
        (Some e, w') \<Rightarrow> (Some e, w')
      | (None, w') \<Rightarrow>
          write_and_persist w' (descriptor_path c) (cover_path ident (new_extension c)) ident)"
proof -
  from assms obtain s where s: "get_prop c ''path'' = JString s"
    by (cases "get_prop c ''path''") (auto simp: invalid_coverPath_def split: if_splits)
  have p: "descriptor_path c = s"
    "cover_path ident (new_extension c)
       = ''Vleer/Covers/'' @ (ident @ ''.'' @ pop (split CHR ''.'' s))"
    using s by (simp_all add: descriptor_path_def new_extension_def cover_path_def)
  show ?thesis
    unfolding p using assms s
    by (simp add: updatePlaylistCover_def Let_def split: prod.splits option.splits)
qed

lemmas fs_defs = updatePlaylistCover_def invalid_coverPath_def existingExtensions_def
  cover_path_def fs_exists_def fs_remove_def write_and_persist_def readFile_def writeFile_def
  db_update_cover_def pop_def Let_def





subsection \<open>Covers on disk after completed updates\<close>

lemma known_covers_after_update:
  assumes res: "updatePlaylistCover w ident c = (None, w')"
  shows "known_covers w' ident = filter (\<lambda>ext. ext = new_extension c) existingExtensions"
proof -
  have ninv: "\<not> invalid_coverPath c"
    using res by (auto simp: updatePlaylistCover_def)
  obtain r1 w1 where rm: "remove_old_covers w ident existingExtensions = (r1, w1)"
    by (cases "remove_old_covers w ident existingExtensions")
  with res ninv have r1: "r1 = None"
    by (cases r1) (auto simp: updatePlaylistCover_phases)
  with rm res ninv
  have wap: "write_and_persist w1 (descriptor_path c) (cover_path ident (new_extension c)) ident
               = (None, w')"
    by (simp add: updatePlaylistCover_phases)
  have "fs_exists w' (cover_path ident ext) \<longleftrightarrow> ext = new_extension c"
    if "ext \<in> set existingExtensions" for ext
  proof (cases "ext = new_extension c")
    case True
    with write_and_persist_done [OF wap] show ?thesis
      by (simp add: fs_exists_def)
  next
    case False
    then have "cover_path ident ext \<noteq> cover_path ident (new_extension c)"
      by (simp add: cover_path_inj)
    with write_and_persist_frame [OF wap]
    have "files w' (cover_path ident ext) = files w1 (cover_path ident ext)"
      by simp
    also have "\<dots> = None"
      using remove_old_covers_done rm r1 that by blast
    finally show ?thesis using False
      by (simp add: fs_exists_def)
  qed
  then show ?thesis
    unfolding known_covers_def by (intro filter_cong) auto
qed

lemma at_most_one_known: "length (filter (\<lambda>ext. ext = x) existingExtensions) \<le> 1"
  by (auto simp: existingExtensions_def)

lemma one_known_cover_after_run:
  assumes "cs \<noteq> []"
    and "updatePlaylistCover_seq w ident cs = (None, w')"
  shows "length (known_covers w' ident) \<le> 1"
  using assms
proof (induction cs arbitrary: w)
  case Nil
  then show ?case by simp
next
  case (Cons c cs)
  from Cons.prems(2) obtain w1 where st: "updatePlaylistCover w ident c = (None, w1)"
    and rest: "updatePlaylistCover_seq w1 ident cs = (None, w')"
    by (auto split: prod.splits option.splits)
  show ?case
  proof (cases "cs = []")
    case True
    with rest have "w' = w1" by simp
    with known_covers_after_update [OF st] at_most_one_known show ?thesis by simp
  next
    case False
    from Cons.IH [OF False rest] show ?thesis .
  qed
qed

text \<open>
  C2 (as amended). After any finite run of completed \<open>updatePlaylistCover\<close> calls for a
  playlist id (at least one call, or none on a disk that held at most one such file),
  at most one of the four paths \<open>Vleer/Covers/<id>.png|jpg|jpeg|gif\<close> holds a file.
\<close>

theorem updatePlaylistCover_one_known_cover:
  assumes "updatePlaylistCover_seq w ident cs = (None, w')"
    and "cs \<noteq> [] \<or> length (known_covers w ident) \<le> 1"
  shows "length (known_covers w' ident) \<le> 1"
proof (cases "cs = []")
  case True
  with assms show ?thesis by simp
next
  case False
  from one_known_cover_after_run [OF False assms(1)] show ?thesis .
qed

theorem updatePlaylistCover_one_known_cover_witness:
  "[JObject [(''path'', JString ''c.png'')], JObject [(''path'', JString ''d.jpg'')]] \<noteq> []
   \<and> fst (updatePlaylistCover_seq source_files ''p''
        [JObject [(''path'', JString ''c.png'')], JObject [(''path'', JString ''d.jpg'')]]) = None
   \<and> length (known_covers (snd (updatePlaylistCover_seq source_files ''p''
        [JObject [(''path'', JString ''c.png'')], JObject [(''path'', JString ''d.jpg'')]])) ''p'') \<le> 1"
proof -
  let ?cs = "[JObject [(''path'', JString ''c.png'')], JObject [(''path'', JString ''d.jpg'')]]"
  let ?r = "updatePlaylistCover_seq source_files ''p'' ?cs"
  have ne: "?cs \<noteq> []" by simp
  have out: "fst ?r = None"
    by (simp add: fs_defs source_files_def)
  then have res: "?r = (None, snd ?r)"
    by (metis prod.collapse)
  from ne have "?cs \<noteq> [] \<or> length (known_covers source_files ''p'') \<le> 1" ..
  from ne out updatePlaylistCover_one_known_cover [OF res this] show ?thesis by blast
qed

text \<open>
  C2 as stated fails. On a disk without covers, two completed updates of \<open>p\<close> from
  \<open>a.webp\<close> and from \<open>b.bmp\<close> leave the two cover files \<open>p.webp\<close> and \<open>p.bmp\<close>: the loop of
  lines 68-74 removes the four known extensions only.
\<close>

theorem updatePlaylistCover_two_covers_counterexample:
  "fst (updatePlaylistCover_seq source_files ''p''
      [JObject [(''path'', JString ''a.webp'')], JObject [(''path'', JString ''b.bmp'')]]) = None
   \<and> card (covers_on_disk (snd (updatePlaylistCover_seq source_files ''p''
      [JObject [(''path'', JString ''a.webp'')], JObject [(''path'', JString ''b.bmp'')]])) ''p'') = 2"
proof -
  let ?r = "updatePlaylistCover_seq source_files ''p''
      [JObject [(''path'', JString ''a.webp'')], JObject [(''path'', JString ''b.bmp'')]]"
  have run: "?r = (None,
      \<lparr>files = [''a.webp'' \<mapsto> [1], ''b.bmp'' \<mapsto> [2], ''c.png'' \<mapsto> [3], ''d.jpg'' \<mapsto> [4],
                ''Vleer/Covers/p.webp'' \<mapsto> [1], ''Vleer/Covers/p.bmp'' \<mapsto> [2]],
       write_protected = (\<lambda>p. False),
       playlists = [''p'' \<mapsto> Some ''Vleer/Covers/p.bmp''], db_available = True\<rparr>)"
    by (simp add: fs_defs source_files_def)
  have "covers_on_disk (snd ?r) ''p'' = {''webp'', ''bmp''}"
    unfolding run by (auto simp: covers_on_disk_def cover_path_def split: if_splits)
  then show ?thesis
    unfolding run by simp
qed

subsection \<open>Cover lookup\<close>

lemma getCoverURLFromID_loop_find:
  "getCoverURLFromID_loop w ident exts =
     (case find (\<lambda>ext. files w (cover_path ident ext) \<noteq> None) exts of
        None \<Rightarrow> Inr (StaticURL ''/cover.png'')
      | Some ext \<Rightarrow> Inr (ObjectURL (the (files w (cover_path ident ext)))))"
  by (induction exts) (auto simp: fs_exists_def readFile_def split: option.splits)

lemma search_loop_same:
  "searchCoverByPlaylistId_loop w ident exts = getCoverURLFromID_loop w ident exts"
  by (induction exts) simp_all

lemma getCoverURLFromID_loop_cong:
  "(\<forall>ext\<in>set exts. files w' (cover_path ident ext) = files w (cover_path ident ext)) \<Longrightarrow>
     getCoverURLFromID_loop w' ident exts = getCoverURLFromID_loop w ident exts"
  by (induction exts) (simp_all add: fs_exists_def readFile_def)

text \<open>
  C3. \<open>getCoverURLFromID\<close> and \<open>searchCoverByPlaylistId\<close> probe
  \<open>Vleer/Covers/<id>.<ext>\<close> for \<open>png, jpg, jpeg, gif\<close> in this order and return (a URL
  for) the contents of the first that exists, and \<open>/cover.png\<close> when none exists. The
  result is determined by the files at these four paths: on disks that agree there
  the two calls return the same, and among several existing covers the earliest in
  the probe order wins.
\<close>

theorem cover_resolution_probe_order:
  "getCoverURLFromID w ident =
     (case find (\<lambda>ext. files w (cover_path ident ext) \<noteq> None) [''png'', ''jpg'', ''jpeg'', ''gif''] of
        None \<Rightarrow> Inr (StaticURL ''/cover.png'')
      | Some ext \<Rightarrow> Inr (ObjectURL (the (files w (cover_path ident ext)))))
   \<and> searchCoverByPlaylistId w ident = getCoverURLFromID w ident
   \<and> ((\<forall>ext\<in>set [''png'', ''jpg'', ''jpeg'', ''gif''].
          files w' (cover_path ident ext) = files w (cover_path ident ext))
        \<longrightarrow> getCoverURLFromID w' ident = getCoverURLFromID w ident)"
  unfolding getCoverURLFromID_def searchCoverByPlaylistId_def
  using getCoverURLFromID_loop_find search_loop_same getCoverURLFromID_loop_cong
  by (intro conjI impI) blast+

theorem cover_resolution_probe_order_witness:
  "files leftover_world (cover_path ''p'' ''png'') = None
   \<and> files leftover_world (cover_path ''p'' ''jpg'') = Some [6]
   \<and> files leftover_world (cover_path ''p'' ''gif'') = Some [5]
   \<and> getCoverURLFromID leftover_world ''p'' = Inr (ObjectURL [6])
   \<and> searchCoverByPlaylistId leftover_world ''p'' = Inr (ObjectURL [6])
   \<and> getCoverURLFromID stale_world ''q'' = Inr (StaticURL ''/cover.png'')"
  using cover_resolution_probe_order [of leftover_world "''p''" leftover_world]
    cover_resolution_probe_order [of stale_world "''q''" stale_world]
  by (simp add: leftover_world_def stale_world_def cover_path_def)

text \<open>
  C10. \<open>getCoverFromID\<close> reads \<open>Vleer/Covers/<songId>.png\<close> and nothing else: without
  that file the call fails with the error of the read, whatever other covers of the
  id exist, and it never returns the placeholder \<open>/cover.png\<close>.
\<close>

theorem getCoverFromID_png_only:
  "(files w (cover_path songId ''png'') = None
      \<longrightarrow> getCoverFromID w songId = Inl (FileNotFound (cover_path songId ''png'')))
   \<and> (\<forall>contents. files w (cover_path songId ''png'') = Some contents
      \<longrightarrow> getCoverFromID w songId = Inr (ObjectURL contents))
   \<and> getCoverFromID w songId \<noteq> Inr (StaticURL ''/cover.png'')"
  by (auto simp: getCoverFromID_def readFile_def cover_path_def split: option.splits)

theorem getCoverFromID_png_only_witness:
  "files leftover_world (cover_path ''p'' ''png'') = None
   \<and> files leftover_world (cover_path ''p'' ''jpg'') = Some [6]
   \<and> getCoverFromID leftover_world ''p'' = Inl (FileNotFound (cover_path ''p'' ''png''))"
proof -
  have h: "files leftover_world (cover_path ''p'' ''png'') = None"
    and j: "files leftover_world (cover_path ''p'' ''jpg'') = Some [6]"
    by (simp_all add: leftover_world_def cover_path_def)
  from getCoverFromID_png_only [of leftover_world "''p''"] h
  have "getCoverFromID leftover_world ''p'' = Inl (FileNotFound (cover_path ''p'' ''png''))"
    by blast
  with h j show ?thesis by blast
qed

subsection \<open>From a completed update to the lookup\<close>

lemma write_and_persist_contents:
  "write_and_persist w1 source newp ident = (None, w') \<Longrightarrow> files w' newp = files w1 source \<and> files w1 source \<noteq> None"
  by (auto simp: write_and_persist_def writeFile_def db_update_cover_def readFile_def
      split: sum.splits if_splits option.splits)

lemma find_unique:
  assumes "x \<in> set xs" and "P x" and "\<forall>y\<in>set xs. P y \<longrightarrow> y = x"
  shows "find P xs = Some x"
  using assms
proof (induction xs)
  case Nil
  then show ?case by simp
next
  case (Cons a xs)
  show ?case
  proof (cases "P a")
    case True
    have "a \<in> set (a # xs)" by simp
    with Cons.prems(3) True have "a = x" by blast
    with True show ?thesis by simp
  next
    case False
    with Cons.prems(1,2) have mem: "x \<in> set xs" by auto
    have rest: "\<forall>y\<in>set xs. P y \<longrightarrow> y = x"
    proof (intro ballI impI)
      fix y
      assume y: "y \<in> set xs" "P y"
      then have "y \<in> set (a # xs)" by simp
      with Cons.prems(3) y(2) show "y = x" by blast
    qed
    from Cons.IH [OF mem Cons.prems(2) rest] False show ?thesis by simp
  qed
qed

lemma getCoverURLFromID_find:
  "getCoverURLFromID w ident =
     (case find (\<lambda>ext. files w (cover_path ident ext) \<noteq> None) existingExtensions of
        None \<Rightarrow> Inr (StaticURL ''/cover.png'')
      | Some ext \<Rightarrow> Inr (ObjectURL (the (files w (cover_path ident ext)))))"
  unfolding getCoverURLFromID_def existingExtensions_def
  by (rule getCoverURLFromID_loop_find)

text \<open>
  A completed update whose source has one of the four known extensions is what the
  lookup finds afterwards: \<open>getCoverURLFromID\<close> returns the bytes of the source file.
\<close>

theorem update_then_lookup:
  assumes res: "updatePlaylistCover w ident c = (None, w')"
    and known: "new_extension c \<in> set existingExtensions"
  shows "files w (descriptor_path c) \<noteq> None
       \<and> getCoverURLFromID w' ident = Inr (ObjectURL (the (files w (descriptor_path c))))"
proof -
  have ninv: "\<not> invalid_coverPath c"
    using res by (auto simp: updatePlaylistCover_def)
  obtain r1 w1 where rm: "remove_old_covers w ident existingExtensions = (r1, w1)"
    by (cases "remove_old_covers w ident existingExtensions")
  with res ninv have r1: "r1 = None"
    by (cases r1) (auto simp: updatePlaylistCover_phases)
  with rm res ninv
  have wap: "write_and_persist w1 (descriptor_path c) (cover_path ident (new_extension c)) ident
               = (None, w')"
    by (simp add: updatePlaylistCover_phases)
  note wc = write_and_persist_contents [OF wap]
  have src: "descriptor_path c \<notin> cover_path ident ` set existingExtensions"
  proof
    assume "descriptor_path c \<in> cover_path ident ` set existingExtensions"
    then obtain e where "e \<in> set existingExtensions" "descriptor_path c = cover_path ident e"
      by blast
    with remove_old_covers_done [of w ident existingExtensions w1 e] rm r1
    have "files w1 (descriptor_path c) = None"
      by simp
    with wc show False by simp
  qed
  with remove_old_covers_frame [OF rm]
  have same: "files w1 (descriptor_path c) = files w (descriptor_path c)"
    by simp
  with wc have new: "files w' (cover_path ident (new_extension c)) = files w (descriptor_path c)"
    and there: "files w (descriptor_path c) \<noteq> None"
    by simp_all
  have kc: "known_covers w' ident = filter (\<lambda>ext. ext = new_extension c) existingExtensions"
    by (rule known_covers_after_update [OF res])
  have only: "\<forall>y\<in>set existingExtensions.
      files w' (cover_path ident y) \<noteq> None \<longrightarrow> y = new_extension c"
  proof (intro ballI impI)
    fix y assume y: "y \<in> set existingExtensions" "files w' (cover_path ident y) \<noteq> None"
    then have "y \<in> set (known_covers w' ident)"
      by (simp add: known_covers_def fs_exists_def)
    with kc show "y = new_extension c" by simp
  qed
  from new there have here: "files w' (cover_path ident (new_extension c)) \<noteq> None" by simp
  have "find (\<lambda>ext. files w' (cover_path ident ext) \<noteq> None) existingExtensions
          = Some (new_extension c)"
  proof (rule find_unique)
    show "new_extension c \<in> set existingExtensions" by (rule known)
    show "files w' (cover_path ident (new_extension c)) \<noteq> None" by (rule here)
    show "\<forall>y\<in>set existingExtensions.
      files w' (cover_path ident y) \<noteq> None \<longrightarrow> y = new_extension c" by (rule only)
  qed
  then have "getCoverURLFromID w' ident
      = Inr (ObjectURL (the (files w' (cover_path ident (new_extension c)))))"
    by (simp only: getCoverURLFromID_find option.case)
  with new there show ?thesis by simp
qed

theorem update_then_lookup_witness:
  "fst (updatePlaylistCover source_files ''p'' (JObject [(''path'', JString ''d.jpg'')])) = None
   \<and> new_extension (JObject [(''path'', JString ''d.jpg'')]) \<in> set existingExtensions
   \<and> getCoverURLFromID (snd (updatePlaylistCover source_files ''p'' (JObject [(''path'', JString ''d.jpg'')]))) ''p''
       = Inr (ObjectURL [4])"
proof -
  let ?c = "JObject [(''path'', JString ''d.jpg'')]"
  let ?r = "updatePlaylistCover source_files ''p'' ?c"
  have out: "fst ?r = None"
    by (simp add: fs_defs source_files_def)
  then have res: "?r = (None, snd ?r)"
    by (simp add: prod_eq_iff)
  have k: "new_extension ?c \<in> set existingExtensions"
    by (simp add: new_extension_def descriptor_path_def pop_def existingExtensions_def)
  have d: "files source_files (descriptor_path ?c) = Some [4]"
    by (simp add: descriptor_path_def source_files_def)
  from update_then_lookup [OF res k] d
  have g: "getCoverURLFromID (snd ?r) ''p'' = Inr (ObjectURL [4])" by simp
  from out k g show ?thesis by (intro conjI)
qed

section \<open>Properties of the audio operations\<close>

subsection \<open>The volume curve\<close>





subsection \<open>Construction of the audio graph\<close>

lemma ensure_existing:
  "audioContext p = Some st \<Longrightarrow>
     ensureAudioContextAndFilters env p
       = p\<lparr>audioContext := Some (if st = Suspended then Running else st)\<rparr>"
  by (simp add: ensureAudioContextAndFilters_def resume_def)

lemma ensure_context:
  "\<exists>st. audioContext (ensureAudioContextAndFilters env p) = Some st \<and> st \<noteq> Suspended"
  by (cases "audioContext p")
    (auto simp: ensureAudioContextAndFilters_def resume_def Let_def)

lemma ensure_twice:
  "ensureAudioContextAndFilters env (ensureAudioContextAndFilters env p)
     = ensureAudioContextAndFilters env p"
proof -
  from ensure_context obtain st
    where st: "audioContext (ensureAudioContextAndFilters env p) = Some st" "st \<noteq> Suspended"
    by blast
  from ensure_existing [OF st(1), of env] st show ?thesis by simp
qed

lemma ensure_again:
  "(ensureAudioContextAndFilters env ^^ Suc n) p = ensureAudioContextAndFilters env p"
  by (induction n) (simp_all add: ensure_twice)

text \<open>
  C6. \<open>ensureAudioContextAndFilters\<close> is idempotent. When a context exists, a call
  constructs nothing: it resumes the context if it is suspended and leaves the source
  node, the analyser, the filters and the connections as they are. Hence the graph is
  built by the first call at most: any number of further calls leaves the state the
  first call produced.
\<close>

theorem ensureAudioContextAndFilters_idempotent:
  "(\<forall>st. audioContext p = Some st \<longrightarrow>
      audioContext (ensureAudioContextAndFilters env p)
        = Some (if st = Suspended then Running else st)
      \<and> sourceNode (ensureAudioContextAndFilters env p) = sourceNode p
      \<and> analyser (ensureAudioContextAndFilters env p) = analyser p
      \<and> eqFilters (ensureAudioContextAndFilters env p) = eqFilters p
      \<and> connections (ensureAudioContextAndFilters env p) = connections p)
   \<and> (ensureAudioContextAndFilters env ^^ Suc n) p = ensureAudioContextAndFilters env p"
  by (simp add: ensure_again ensure_existing del: funpow.simps)

theorem ensureAudioContextAndFilters_idempotent_witness:
  "audioContext suspended_graph = Some Suspended
   \<and> ensureAudioContextAndFilters (spec_collaborators Suspended) suspended_graph
       = suspended_graph\<lparr>audioContext := Some Running\<rparr>
   \<and> (ensureAudioContextAndFilters (spec_collaborators Suspended) ^^ 3) no_graph
       = ensureAudioContextAndFilters (spec_collaborators Suspended) no_graph"
proof -
  have h: "audioContext suspended_graph = Some Suspended"
    by (simp add: suspended_graph_def)
  note t = ensureAudioContextAndFilters_idempotent
  from t [of suspended_graph "spec_collaborators Suspended" 0] h
  have "ensureAudioContextAndFilters (spec_collaborators Suspended) suspended_graph
       = suspended_graph\<lparr>audioContext := Some Running\<rparr>"
    by (intro player.equality) simp_all
  moreover from t [of no_graph "spec_collaborators Suspended" 2]
  have "(ensureAudioContextAndFilters (spec_collaborators Suspended) ^^ 3) no_graph
       = ensureAudioContextAndFilters (spec_collaborators Suspended) no_graph"
    by (simp add: numeral_3_eq_3 del: funpow.simps)
  ultimately show ?thesis using h by blast
qed





subsection \<open>The end of a track\<close>




end
